theory Spec2Isabelle
  imports Complex_Main "HOL-Library.Sublist"
begin

section \<open>Strings\<close>

text \<open>
  A JavaScript string is modelled as a \<^typ>\<open>string\<close>, one \<^typ>\<open>char\<close> per code unit;
  the model covers the strings whose code units are below 256. On these,
  \<^verbatim>\<open>toLowerCase\<close> changes the letters A to Z and the upper-case letters of the Latin-1
  block (U+00C0 to U+00DE without the multiplication sign), and
  \<^verbatim>\<open>String.prototype.trim\<close> removes the characters U+0009 to U+000D, the space and the
  no-break space U+00A0.
\<close>

text \<open>\<^verbatim>\<open>s.includes(t)\<close>: \<open>t\<close> occurs in \<open>s\<close> as a contiguous run of characters.\<close>

fun includes_str :: "string \<Rightarrow> string \<Rightarrow> bool" where
  "includes_str [] t = (t = [])"
| "includes_str (c # cs) t = (prefix t (c # cs) \<or> includes_str cs t)"

definition ascii_upper :: "char list" where
  "ascii_upper = ''ABCDEFGHIJKLMNOPQRSTUVWXYZ''"

definition ascii_lower :: "char list" where
  "ascii_lower = ''abcdefghijklmnopqrstuvwxyz''"

definition latin1_upper :: "char list" where
  "latin1_upper = [
     CHR 0xC0, CHR 0xC1, CHR 0xC2, CHR 0xC3, CHR 0xC4, CHR 0xC5, CHR 0xC6, CHR 0xC7,
     CHR 0xC8, CHR 0xC9, CHR 0xCA, CHR 0xCB, CHR 0xCC, CHR 0xCD, CHR 0xCE, CHR 0xCF,
     CHR 0xD0, CHR 0xD1, CHR 0xD2, CHR 0xD3, CHR 0xD4, CHR 0xD5, CHR 0xD6, CHR 0xD8,
     CHR 0xD9, CHR 0xDA, CHR 0xDB, CHR 0xDC, CHR 0xDD, CHR 0xDE]"

definition latin1_lower :: "char list" where
  "latin1_lower = [
     CHR 0xE0, CHR 0xE1, CHR 0xE2, CHR 0xE3, CHR 0xE4, CHR 0xE5, CHR 0xE6, CHR 0xE7,
     CHR 0xE8, CHR 0xE9, CHR 0xEA, CHR 0xEB, CHR 0xEC, CHR 0xED, CHR 0xEE, CHR 0xEF,
     CHR 0xF0, CHR 0xF1, CHR 0xF2, CHR 0xF3, CHR 0xF4, CHR 0xF5, CHR 0xF6, CHR 0xF8,
     CHR 0xF9, CHR 0xFA, CHR 0xFB, CHR 0xFC, CHR 0xFD, CHR 0xFE]"

definition lower_table :: "(char \<times> char) list" where
  "lower_table = zip (ascii_upper @ latin1_upper) (ascii_lower @ latin1_lower)"

definition upper_table :: "(char \<times> char) list" where
  "upper_table = zip (ascii_lower @ latin1_lower) (ascii_upper @ latin1_upper)"

definition toLowerChar :: "char \<Rightarrow> char" where
  "toLowerChar c = (case map_of lower_table c of Some d \<Rightarrow> d | None \<Rightarrow> c)"

text \<open>
  Upper-casing of one code unit, as the \<^verbatim>\<open>i\<close> flag of a regular expression uses it to
  compare two characters. The engine sends U+00FF and U+00B5 to code units above 255, each
  the image of no other code unit below 256; they are left in place here, which gives the
  same comparisons.
\<close>

definition toUpperChar :: "char \<Rightarrow> char" where
  "toUpperChar c = (case map_of upper_table c of Some d \<Rightarrow> d | None \<Rightarrow> c)"

definition toLowerCase :: "string \<Rightarrow> string" where
  "toLowerCase s = map toLowerChar s"

definition isWhiteSpace :: "char \<Rightarrow> bool" where
  "isWhiteSpace c =
    (c \<in> set [CHR 0x09, CHR 0x0A, CHR 0x0B, CHR 0x0C, CHR 0x0D, CHR 0x20, CHR 0xA0])"

definition trim :: "string \<Rightarrow> string" where
  "trim s = rev (dropWhile isWhiteSpace (rev (dropWhile isWhiteSpace s)))"

text \<open>Decimal rendering of a length, as a template literal prints it.\<close>

definition digit_char :: "nat \<Rightarrow> char" where
  "digit_char d = ''0123456789'' ! d"

function show_nat :: "nat \<Rightarrow> string" where
  "show_nat n = (if n < 10 then [digit_char n] else show_nat (n div 10) @ [digit_char (n mod 10)])"
  by pat_completeness auto
termination
  by (relation "measure id") auto

declare show_nat.simps [simp del]

section \<open>Code block enhancer: language sniffing\<close>

text \<open>\<^verbatim>\<open>detectLanguage(code)\<close> of \<^verbatim>\<open>scripts.js\<close>, branch by branch.\<close>

definition detectLanguage :: "string \<Rightarrow> string" where
  "detectLanguage code =
    (if includes_str code ''#!/bin/bash'' \<or> includes_str code ''echo '' \<or>
        includes_str code ''mkdir '' \<or> includes_str code ''cd '' \<or>
        includes_str code ''ls '' \<or> includes_str code ''git '' \<or>
        includes_str code ''claude ''
     then ''bash''
     else if includes_str code ''{'' \<and> includes_str code ''}'' \<and>
        (includes_str code (CHR 0x22 # ''hooks'' @ [CHR 0x22]) \<or>
         includes_str code (CHR 0x22 # ''PreToolUse'' @ [CHR 0x22]) \<or>
         includes_str code (CHR 0x22 # ''matcher'' @ [CHR 0x22]))
     then ''json''
     else if includes_str code (''---'' @ CHR 0x0A # ''name:'') \<or>
        includes_str code ''description:''
     then ''markdown''
     else if includes_str code ''function'' \<or> includes_str code ''const '' \<or>
        includes_str code ''let ''
     then ''javascript''
     else if includes_str code ''def '' \<or> includes_str code ''import '' \<or>
        includes_str code ''python''
     then ''python''
     else ''bash'')"

text \<open>
  The rule table as the specification words it: an ordered list of substring-pattern
  rules, the first rule that matches decides, and the shell language is the default.
\<close>

definition any_marker :: "string list \<Rightarrow> string \<Rightarrow> bool" where
  "any_marker ms code = (\<exists>m \<in> set ms. includes_str code m)"

definition all_marker :: "string list \<Rightarrow> string \<Rightarrow> bool" where
  "all_marker ms code = (\<forall>m \<in> set ms. includes_str code m)"

definition shell_rule :: "string \<Rightarrow> bool" where
  "shell_rule = any_marker [''#!/bin/bash'', ''echo '', ''mkdir '', ''cd '', ''ls '', ''git '', ''claude '']"

definition json_rule :: "string \<Rightarrow> bool" where
  "json_rule code = (all_marker [''{'', ''}''] code \<and>
     any_marker [CHR 0x22 # ''hooks'' @ [CHR 0x22], CHR 0x22 # ''PreToolUse'' @ [CHR 0x22],
                 CHR 0x22 # ''matcher'' @ [CHR 0x22]] code)"

definition frontmatter_rule :: "string \<Rightarrow> bool" where
  "frontmatter_rule = any_marker [''---'' @ CHR 0x0A # ''name:'', ''description:'']"

definition generic_keyword_rule :: "string \<Rightarrow> bool" where
  "generic_keyword_rule = any_marker [''function'', ''const '', ''let '']"

definition scripting_keyword_rule :: "string \<Rightarrow> bool" where
  "scripting_keyword_rule = any_marker [''def '', ''import '', ''python'']"

definition sniff_rules :: "((string \<Rightarrow> bool) \<times> string) list" where
  "sniff_rules =
    [(shell_rule, ''bash''), (json_rule, ''json''), (frontmatter_rule, ''markdown''),
     (generic_keyword_rule, ''javascript''), (scripting_keyword_rule, ''python'')]"

definition first_matching_rule :: "((string \<Rightarrow> bool) \<times> string) list \<Rightarrow> string \<Rightarrow> string" where
  "first_matching_rule rules code =
    (case find (\<lambda>r. fst r code) rules of Some r \<Rightarrow> snd r | None \<Rightarrow> ''bash'')"

text \<open>The concrete input of the specification: \<^verbatim>\<open>echo '{"hooks": {}}'\<close>.\<close>

definition echo_hooks_example :: string where
  "echo_hooks_example =
    ''echo '' @ CHR 0x27 # ''{'' @ CHR 0x22 # ''hooks'' @ CHR 0x22 # '': {}}'' @ [CHR 0x27]"


text \<open>Reading a decimal numeral back.\<close>

definition digit_value :: "char \<Rightarrow> nat" where
  "digit_value c = length (takeWhile (\<lambda>d. d \<noteq> c) ''0123456789'')"

definition read_nat :: "string \<Rightarrow> nat" where
  "read_nat s = foldl (\<lambda>a c. 10 * a + digit_value c) 0 s"

section \<open>Regular expressions of the host\<close>

text \<open>
  \<^verbatim>\<open>new RegExp(pattern, 'gi')\<close> and \<^verbatim>\<open>String.prototype.replace\<close> belong to the
  JavaScript engine. They are modelled on a fragment of the pattern language: literal
  characters, a backslash before a syntax character, the dot, capture groups, alternation,
  and the quantifiers \<^verbatim>\<open>*\<close>, \<^verbatim>\<open>+\<close>, \<^verbatim>\<open>?\<close> with their lazy forms. On this fragment the
  constructor raises \<open>SyntaxError\<close> where the engine does: an unmatched parenthesis, a
  quantifier with nothing to repeat, a backslash at the end of the pattern. A pattern that
  leaves the fragment (character classes, braces, anchors, group modifiers, other escapes)
  gives \<open>NotModelled\<close>, so that no behaviour is invented for it.
\<close>

datatype error = SyntaxError | NotModelled

datatype regex =
    Chr char
  | AnyChar
  | Eps
  | Cat regex regex
  | Alt regex regex
  | Star bool regex
  | Group nat regex

definition backslash :: char where
  "backslash = CHR 0x5C"

definition syntax_chars :: "char list" where
  "syntax_chars = ''^$'' @ [backslash] @ ''.*+?()[]{}|''"

record parser =
  stack :: "(regex list \<times> regex list \<times> nat) list"
  alts :: "regex list"
  terms :: "regex list"
  group_no :: nat
  next_group :: nat
  escaped :: bool
  quantifier :: "char option"
  atom :: bool
  opened :: bool

definition seq_of :: "regex list \<Rightarrow> regex" where
  "seq_of ts = foldr Cat ts Eps"

fun alt_of :: "regex list \<Rightarrow> regex" where
  "alt_of [] = Eps"
| "alt_of [a] = a"
| "alt_of (a # b # bs) = Alt a (alt_of (b # bs))"

definition close_frame :: "parser \<Rightarrow> regex" where
  "close_frame st = alt_of (alts st @ [seq_of (terms st)])"

definition quantified :: "char \<Rightarrow> bool \<Rightarrow> regex \<Rightarrow> regex" where
  "quantified q greedy t =
    (if q = CHR ''*'' then Star greedy t
     else if q = CHR ''+'' then Cat t (Star greedy t)
     else if greedy then Alt t Eps else Alt Eps t)"

definition push_atom :: "regex \<Rightarrow> parser \<Rightarrow> parser" where
  "push_atom t st = st\<lparr>terms := terms st @ [t], atom := True, opened := False\<rparr>"

definition apply_quantifier :: "char \<Rightarrow> bool \<Rightarrow> parser \<Rightarrow> parser" where
  "apply_quantifier q greedy st =
    st\<lparr>terms := butlast (terms st) @ [quantified q greedy (last (terms st))],
       quantifier := None, atom := False\<rparr>"

definition plain_step :: "char \<Rightarrow> parser \<Rightarrow> error + parser" where
  "plain_step c st =
    (if opened st \<and> c = CHR ''?'' then Inl NotModelled
     else if c = backslash then Inr (st\<lparr>escaped := True, opened := False\<rparr>)
     else if c = CHR ''('' then
       Inr (st\<lparr>stack := (alts st, terms st, group_no st) # stack st, alts := [], terms := [],
              group_no := next_group st, next_group := Suc (next_group st),
              atom := False, opened := True\<rparr>)
     else if c = CHR '')'' then
       (case stack st of
          [] \<Rightarrow> Inl SyntaxError
        | (as, ts, g) # fs \<Rightarrow>
            Inr (st\<lparr>stack := fs, alts := as, terms := ts @ [Group (group_no st) (close_frame st)],
                   group_no := g, atom := True, opened := False\<rparr>))
     else if c = CHR ''|'' then
       Inr (st\<lparr>alts := alts st @ [seq_of (terms st)], terms := [], atom := False,
              opened := False\<rparr>)
     else if c \<in> set ''*+?'' then
       (if atom st then Inr (st\<lparr>quantifier := Some c, opened := False\<rparr>) else Inl SyntaxError)
     else if c \<in> set ''^$[{'' then Inl NotModelled
     else if c = CHR ''.'' then Inr (push_atom AnyChar st)
     else Inr (push_atom (Chr c) st))"

definition step :: "char \<Rightarrow> parser \<Rightarrow> error + parser" where
  "step c st =
    (if escaped st then
       (if c \<in> set syntax_chars then Inr (push_atom (Chr c) (st\<lparr>escaped := False\<rparr>))
        else Inl NotModelled)
     else case quantifier st of
       Some q \<Rightarrow>
         (if c = CHR ''?'' then Inr (apply_quantifier q False st)
          else plain_step c (apply_quantifier q True st))
     | None \<Rightarrow> plain_step c st)"

definition finish :: "parser \<Rightarrow> error + regex" where
  "finish st =
    (if escaped st then Inl SyntaxError
     else if stack st \<noteq> [] then Inl SyntaxError
     else Inr (close_frame (case quantifier st of Some q \<Rightarrow> apply_quantifier q True st | None \<Rightarrow> st)))"

fun parse_from :: "parser \<Rightarrow> string \<Rightarrow> error + regex" where
  "parse_from st [] = finish st"
| "parse_from st (c # cs) = (case step c st of Inl e \<Rightarrow> Inl e | Inr st' \<Rightarrow> parse_from st' cs)"

definition initial_parser :: parser where
  "initial_parser = \<lparr>stack = [], alts = [], terms = [], group_no = 0, next_group = 1,
     escaped = False, quantifier = None, atom = False, opened = False\<rparr>"

text \<open>\<^verbatim>\<open>new RegExp(pattern, 'gi')\<close>; the two flags are fixed by the only call site.\<close>

definition RegExp :: "string \<Rightarrow> error + regex" where
  "RegExp pattern = parse_from initial_parser pattern"

text \<open>
  Matching with the engine's backtracking order: \<open>ends r s cap\<close> lists, in the order in
  which the engine tries them, the ways \<open>r\<close> can match a prefix of \<open>s\<close>, each as the
  remaining input and the text captured by group 1. The \<^verbatim>\<open>i\<close> flag compares characters
  after upper-casing; the dot refuses line terminators; an iteration of a star that
  consumes nothing is refused, and captures inside a star are reset at each iteration.
\<close>

fun has_group1 :: "regex \<Rightarrow> bool" where
  "has_group1 (Group n r) = (n = 1 \<or> has_group1 r)"
| "has_group1 (Cat a b) = (has_group1 a \<or> has_group1 b)"
| "has_group1 (Alt a b) = (has_group1 a \<or> has_group1 b)"
| "has_group1 (Star g a) = has_group1 a"
| "has_group1 _ = False"

fun ends :: "regex \<Rightarrow> string \<Rightarrow> string option \<Rightarrow> (string \<times> string option) list" where
  "ends (Chr c) s cap =
    (case s of [] \<Rightarrow> [] | x # xs \<Rightarrow> if toUpperChar x = toUpperChar c then [(xs, cap)] else [])"
| "ends AnyChar s cap =
    (case s of [] \<Rightarrow> [] | x # xs \<Rightarrow> if x \<in> set [CHR 0x0A, CHR 0x0D] then [] else [(xs, cap)])"
| "ends Eps s cap = [(s, cap)]"
| "ends (Cat a b) s cap = concat (map (\<lambda>m. ends b (fst m) (snd m)) (ends a s cap))"
| "ends (Alt a b) s cap = ends a s cap @ ends b s cap"
| "ends (Group n a) s cap =
    map (\<lambda>m. (fst m, if n = 1 then Some (take (length s - length (fst m)) s) else snd m))
      (ends a s cap)"
| "ends (Star greedy a) s cap =
    (let more = concat (map (\<lambda>m. if length (fst m) < length s
                                   then ends (Star greedy a) (fst m) (snd m) else [])
                            (ends a s (if has_group1 a then None else cap)))
     in if greedy then more @ [(s, cap)] else (s, cap) # more)"

text \<open>
  The replacement template of the only call site,
  \<^verbatim>\<open><span class="search-highlight">$1</span>\<close>, with \<^verbatim>\<open>$1\<close> expanded.
\<close>

definition highlight_replacement :: "string option \<Rightarrow> string" where
  "highlight_replacement cap =
    ''<span class='' @ CHR 0x22 # ''search-highlight'' @ CHR 0x22 # ''>'' @
    (case cap of Some m \<Rightarrow> m | None \<Rightarrow> []) @ ''</span>''"

text \<open>
  \<^verbatim>\<open>text.replace(regex, template)\<close> with the \<^verbatim>\<open>g\<close> flag: every match from left to
  right is replaced; after an empty match the scan moves on by one character.
\<close>

fun replace_all :: "regex \<Rightarrow> string \<Rightarrow> string" where
  "replace_all r s =
    (case ends r s None of
       [] \<Rightarrow> (case s of [] \<Rightarrow> [] | c # cs \<Rightarrow> c # replace_all r cs)
     | m # _ \<Rightarrow>
         highlight_replacement (snd m) @
         (if length (fst m) < length s then replace_all r (fst m)
          else (case s of [] \<Rightarrow> [] | c # cs \<Rightarrow> c # replace_all r cs)))"

declare replace_all.simps [simp del]

section \<open>Highlighter\<close>

text \<open>\<^verbatim>\<open>escapeRegExp(string)\<close>: the class \<^verbatim>\<open>[.*+?^${}()|[\]\\]\<close> and the template \<^verbatim>\<open>\\$&\<close>.\<close>

definition escaped_class :: "char list" where
  "escaped_class = ''.*+?^${}()|[]'' @ [backslash]"

definition escapeRegExp :: "string \<Rightarrow> string" where
  "escapeRegExp string = concat (map (\<lambda>c. if c \<in> set escaped_class then [backslash, c] else [c]) string)"

text \<open>\<^verbatim>\<open>highlightText(text, query)\<close>; an exception of the constructor propagates.\<close>

definition highlightText :: "string \<Rightarrow> string \<Rightarrow> error + string" where
  "highlightText text query =
    (if query = [] then Inr text
     else case RegExp (''('' @ escapeRegExp query @ '')'') of
       Inl e \<Rightarrow> Inl e
     | Inr regex \<Rightarrow> Inr (replace_all regex text))"

section \<open>Document tree\<close>

text \<open>
  The searchable region is a tree of text nodes and elements; an element carries its
  tag name, its \<^verbatim>\<open>id\<close> attribute (empty when absent) and its children. An element
  of the tree is referred to by its position: the list of child indices from the root
  of the region. Two references are the same element exactly when their paths agree.
\<close>

datatype node = TextNode string | Element string string "node list"

record element =
  path :: "nat list"
  tagName :: string
  elem_id :: string
  textContent :: string

fun node_text :: "node \<Rightarrow> string" where
  "node_text (TextNode s) = s"
| "node_text (Element t i cs) = concat (map node_text cs)"

definition view :: "nat list \<Rightarrow> node \<Rightarrow> element list" where
  "view p n =
    (case n of
       TextNode s \<Rightarrow> []
     | Element t i cs \<Rightarrow> [\<lparr>path = p, tagName = t, elem_id = i, textContent = node_text n\<rparr>])"

text \<open>All elements below a node, in document order.\<close>

fun descendants :: "nat list \<Rightarrow> node \<Rightarrow> element list"
  and children_from :: "nat list \<Rightarrow> nat \<Rightarrow> node list \<Rightarrow> element list" where
  "descendants p (TextNode s) = []"
| "descendants p (Element t i cs) = children_from p 0 cs"
| "children_from p k [] = []"
| "children_from p k (c # cs) =
    view (p @ [k]) c @ descendants (p @ [k]) c @ children_from p (Suc k) cs"

text \<open>\<^verbatim>\<open>mainContent.querySelectorAll(tags)\<close> for a list of tag names.\<close>

definition querySelectorAll :: "node \<Rightarrow> string list \<Rightarrow> element list" where
  "querySelectorAll region tags = filter (\<lambda>e. tagName e \<in> set tags) (descendants [] region)"

fun lookup :: "node \<Rightarrow> nat list \<Rightarrow> node option" where
  "lookup n [] = Some n"
| "lookup (TextNode s) (k # p) = None"
| "lookup (Element t i cs) (k # p) = (if k < length cs then lookup (cs ! k) p else None)"

definition is_element :: "node \<Rightarrow> bool" where
  "is_element n = (case n of TextNode s \<Rightarrow> False | Element t i cs \<Rightarrow> True)"

definition child_nodes :: "node \<Rightarrow> nat list \<Rightarrow> node list" where
  "child_nodes region p =
    (case lookup region p of Some (Element t i cs) \<Rightarrow> cs | _ \<Rightarrow> [])"

text \<open>\<^verbatim>\<open>previousElementSibling\<close>: the nearest earlier child of the parent that is an element.\<close>

definition previousElementSibling :: "node \<Rightarrow> nat list \<Rightarrow> nat list option" where
  "previousElementSibling region p =
    (let siblings = child_nodes region (butlast p) in
     case find (\<lambda>j. j < length siblings \<and> is_element (siblings ! j)) (rev [0..<last p]) of
       None \<Rightarrow> None
     | Some j \<Rightarrow> Some (butlast p @ [j]))"

definition parentElement :: "nat list \<Rightarrow> nat list" where
  "parentElement p = butlast p"

section \<open>Section locator\<close>

text \<open>
  \<^verbatim>\<open>findParentHeading(element)\<close>: the loop runs while \<open>current\<close> is not the root of
  the region; it returns the first candidate that is an h2, h3 or h4 with a non-empty id,
  and moves to the previous element sibling, or else to the parent.
\<close>

function findParentHeading :: "node \<Rightarrow> nat list \<Rightarrow> element option" where
  "findParentHeading region current =
    (if current = [] then None
     else case lookup region current of
       None \<Rightarrow> None
     | Some (TextNode s) \<Rightarrow> None
     | Some (Element t i cs) \<Rightarrow>
         if t \<in> set [''h2'', ''h3'', ''h4''] \<and> i \<noteq> []
         then Some \<lparr>path = current, tagName = t, elem_id = i,
                     textContent = node_text (Element t i cs)\<rparr>
         else findParentHeading region
                (case previousElementSibling region current of
                   Some q \<Rightarrow> q
                 | None \<Rightarrow> parentElement current))"
  by pat_completeness auto
termination
proof (relation "measure (\<lambda>(region, p). sum_list p + length p)")
  show "wf (measure (\<lambda>(region, p). sum_list p + length p))" by simp
next
  fix region :: node and current :: "nat list" and x2 x2a x21 x22 x23
  assume ne: "current \<noteq> []"
  let ?next = "case previousElementSibling region current of Some q \<Rightarrow> q | None \<Rightarrow> parentElement current"
  from ne have split: "current = butlast current @ [last current]" by simp
  have total: "sum_list current = sum_list (butlast current) + last current"
    by (subst split) simp
  have len: "length current = Suc (length (butlast current))"
    using ne by (simp add: Suc_pred)
  show "((region, ?next), region, current) \<in> measure (\<lambda>(region, p). sum_list p + length p)"
  proof (cases "previousElementSibling region current")
    case None
    then show ?thesis using total len by (simp add: parentElement_def)
  next
    case (Some q)
    have mem: "find P xs = Some y \<Longrightarrow> y \<in> set xs" for P :: "nat \<Rightarrow> bool" and xs y
      by (induction xs) (auto split: if_splits)
    from Some obtain j where q: "q = butlast current @ [j]"
      and f: "find (\<lambda>j. j < length (child_nodes region (butlast current)) \<and>
                 is_element (child_nodes region (butlast current) ! j))
               (rev [0..<last current]) = Some j"
      by (auto simp: previousElementSibling_def Let_def split: option.splits)
    from mem [OF f] have "j < last current" by simp
    with Some q total len show ?thesis by simp
  qed
qed

declare findParentHeading.simps [simp del]

section \<open>Search engine\<close>

text \<open>The result object built by \<^verbatim>\<open>performSearch\<close>: element, heading, text, id.\<close>

record result =
  element :: element
  heading :: "element option"
  text' :: string
  id' :: "string option"

text \<open>
  The \<^verbatim>\<open>forEach\<close> over the sections: a section whose lower-cased text contains the
  query gives a result, unless a result for the same element is already there.
\<close>

fun scan_sections :: "node \<Rightarrow> string \<Rightarrow> element list \<Rightarrow> result list \<Rightarrow> result list" where
  "scan_sections region query [] results = results"
| "scan_sections region query (section # rest) results =
    (let text = toLowerCase (textContent section);
         heading = findParentHeading region (path section)
     in if includes_str text query then
          (let result = \<lparr>element = section, heading = heading, text' = textContent section,
                          id' = (case heading of Some h \<Rightarrow> Some (elem_id h) | None \<Rightarrow> None)\<rparr>
           in if \<not> list_ex (\<lambda>r. path (element r) = path section) results
              then scan_sections region query rest (results @ [result])
              else scan_sections region query rest results)
        else scan_sections region query rest results)"

section \<open>Result display\<close>

definition dquote :: char where
  "dquote = CHR 0x22"

definition newline :: string where
  "newline = [CHR 0x0A]"

definition spaces :: "nat \<Rightarrow> string" where
  "spaces n = replicate n CHR '' ''"

text \<open>
  The deduplication loop of \<^verbatim>\<open>displaySearchResults\<close>, with its two accumulators
  \<open>seenHeadings\<close> and \<open>uniqueResults\<close>.
\<close>

fun dedupe :: "result list \<Rightarrow> string set \<Rightarrow> result list \<Rightarrow> result list" where
  "dedupe [] seenHeadings uniqueResults = uniqueResults"
| "dedupe (result # rest) seenHeadings uniqueResults =
    (case heading result of
       Some h \<Rightarrow>
         if elem_id h \<notin> seenHeadings
         then dedupe rest (insert (elem_id h) seenHeadings) (uniqueResults @ [result])
         else dedupe rest seenHeadings uniqueResults
     | None \<Rightarrow> dedupe rest seenHeadings uniqueResults)"

definition uniqueResults :: "result list \<Rightarrow> result list" where
  "uniqueResults results = dedupe results {} []"

text \<open>\<^verbatim>\<open>uniqueResults.slice(0, 5)\<close>: the records that are rendered.\<close>

definition displayed :: "result list \<Rightarrow> result list" where
  "displayed results = take 5 (uniqueResults results)"

definition headingText :: "result \<Rightarrow> string" where
  "headingText result = (case heading result of Some h \<Rightarrow> textContent h | None \<Rightarrow> ''Content'')"

definition snippet :: "result \<Rightarrow> string" where
  "snippet result =
    (if length (text' result) > 100 then take 100 (text' result) @ ''...'' else text' result)"

text \<open>The template literal of one result; \<^verbatim>\<open>${result.id}\<close> prints \<^verbatim>\<open>null\<close> for null.\<close>

definition render_result :: "string \<Rightarrow> result \<Rightarrow> error + string" where
  "render_result query result =
    (case highlightText (headingText result) query of
       Inl e \<Rightarrow> Inl e
     | Inr h \<Rightarrow>
        (case highlightText (snippet result) query of
           Inl e \<Rightarrow> Inl e
         | Inr s \<Rightarrow> Inr (
            newline @ spaces 16 @ ''<div class='' @ dquote # ''search-result'' @ dquote # ''>'' @
            newline @ spaces 20 @ ''<a href='' @ dquote # ''#'' @
              (case id' result of Some i \<Rightarrow> i | None \<Rightarrow> ''null'') @ dquote # ''>'' @
            newline @ spaces 24 @ h @
            newline @ spaces 20 @ ''</a>'' @
            newline @ spaces 20 @ ''<div>'' @
            newline @ spaces 24 @ s @
            newline @ spaces 20 @ ''</div>'' @
            newline @ spaces 16 @ ''</div>'' @
            newline @ spaces 12)))"

text \<open>\<^verbatim>\<open>.map(...)\<close> over the rendered records; the first exception ends it.\<close>

fun render_results :: "string \<Rightarrow> result list \<Rightarrow> error + string list" where
  "render_results query [] = Inr []"
| "render_results query (r # rs) =
    (case render_result query r of
       Inl e \<Rightarrow> Inl e
     | Inr h \<Rightarrow> (case render_results query rs of Inl e \<Rightarrow> Inl e | Inr hs \<Rightarrow> Inr (h # hs)))"

definition no_results_message :: "string \<Rightarrow> string" where
  "no_results_message query =
    ''<div class='' @ dquote # ''search-no-results'' @ dquote # ''>No results found for '' @
    dquote # query @ dquote # ''</div>''"

definition totalResults :: "result list \<Rightarrow> string" where
  "totalResults results =
    (if length results > 5 then '' (showing 5 of '' @ show_nat (length results) @ '')'' else [])"

definition results_header :: "result list \<Rightarrow> string" where
  "results_header results =
    newline @ spaces 12 @ ''<div class='' @ dquote # ''search-results-header'' @ dquote # ''>'' @
    newline @ spaces 16 @ ''Found '' @ show_nat (length results) @ '' result'' @
      (if length results \<noteq> 1 then ''s'' else []) @ totalResults results @
    newline @ spaces 12 @ ''</div>'' @
    newline @ spaces 12"

text \<open>
  \<^verbatim>\<open>displaySearchResults(results, query)\<close>: the value assigned to
  \<^verbatim>\<open>searchResults.innerHTML\<close>, or the exception that leaves it unassigned.
\<close>

definition displaySearchResults :: "result list \<Rightarrow> string \<Rightarrow> error + string" where
  "displaySearchResults results query =
    (if length results = 0 then Inr (no_results_message query)
     else case render_results query (displayed results) of
       Inl e \<Rightarrow> Inl e
     | Inr resultsHtml \<Rightarrow>
         Inr (results_header results @ concat resultsHtml @ newline @ spaces 8))"

definition clearSearchResults :: string where
  "clearSearchResults = []"

text \<open>
  The page as \<^verbatim>\<open>performSearch\<close> reads it, and a run of it: the sections whose text
  was read, the result array that was built, and the markup written to the result area.
\<close>

record page =
  searchInput_value :: string
  mainContent :: node

record search_run =
  scanned :: "element list"
  found :: "result list"
  innerHTML :: "error + string"

definition searchable_tags :: "string list" where
  "searchable_tags = [''h2'', ''h3'', ''h4'', ''p'', ''li'', ''code'', ''pre'']"

definition performSearch :: "page \<Rightarrow> search_run" where
  "performSearch pg =
    (let query = trim (toLowerCase (searchInput_value pg))
     in if length query < 2
        then \<lparr>scanned = [], found = [], innerHTML = Inr clearSearchResults\<rparr>
        else
          (let sections = querySelectorAll (mainContent pg) searchable_tags;
               results = scan_sections (mainContent pg) query sections []
           in \<lparr>scanned = sections, found = results,
                innerHTML = displaySearchResults results query\<rparr>))"

section \<open>Markup read back by the host\<close>

text \<open>
  Assigning a string to \<^verbatim>\<open>innerHTML\<close> hands it to the HTML parser of the host.
  \<open>start_tags\<close> models the tokenizer as far as the elements it creates: a \<^verbatim>\<open><\<close>
  followed by an ASCII letter opens a start tag, whose name, in lower case, runs to a tab,
  a line break, a space, \<^verbatim>\<open>/\<close> or \<^verbatim>\<open>>\<close>; the tag ends at the next \<^verbatim>\<open>>\<close>
  outside a quoted attribute value; a tag still open at the end of the input creates
  nothing. Only start tags are followed: what begins with \<^verbatim>\<open></\<close>, \<^verbatim>\<open><!\<close> or
  \<^verbatim>\<open><?\<close> is skipped to the next \<^verbatim>\<open>>\<close>, so the inside of a comment and the
  elements that the parser makes up for a stray end tag are outside the model.
\<close>

datatype tokenizer =
    Data
  | TagOpen
  | TagName string
  | InTag string
  | InDoubleQuoted string
  | InSingleQuoted string
  | Skip

definition is_letter :: "char \<Rightarrow> bool" where
  "is_letter c = (c \<in> set (ascii_upper @ ascii_lower))"

definition tag_char :: "char \<Rightarrow> char" where
  "tag_char c = (case map_of (zip ascii_upper ascii_lower) c of Some d \<Rightarrow> d | None \<Rightarrow> c)"

definition is_tag_space :: "char \<Rightarrow> bool" where
  "is_tag_space c = (c \<in> set [CHR 0x09, CHR 0x0A, CHR 0x0C, CHR 0x0D, CHR 0x20])"

definition tokenizer_step :: "tokenizer \<times> string list \<Rightarrow> char \<Rightarrow> tokenizer \<times> string list" where
  "tokenizer_step st c =
    (case st of (state, tags) \<Rightarrow>
      (case state of
         Data \<Rightarrow> (if c = CHR ''<'' then (TagOpen, tags) else (Data, tags))
       | TagOpen \<Rightarrow>
           (if is_letter c then (TagName [tag_char c], tags)
            else if c = CHR ''/'' \<or> c = CHR ''!'' \<or> c = CHR ''?'' then (Skip, tags)
            else if c = CHR ''<'' then (TagOpen, tags)
            else (Data, tags))
       | TagName n \<Rightarrow>
           (if c = CHR ''>'' then (Data, tags @ [n])
            else if is_tag_space c \<or> c = CHR ''/'' then (InTag n, tags)
            else (TagName (n @ [tag_char c]), tags))
       | InTag n \<Rightarrow>
           (if c = CHR ''>'' then (Data, tags @ [n])
            else if c = CHR 0x22 then (InDoubleQuoted n, tags)
            else if c = CHR 0x27 then (InSingleQuoted n, tags)
            else (InTag n, tags))
       | InDoubleQuoted n \<Rightarrow> (if c = CHR 0x22 then (InTag n, tags) else (InDoubleQuoted n, tags))
       | InSingleQuoted n \<Rightarrow> (if c = CHR 0x27 then (InTag n, tags) else (InSingleQuoted n, tags))
       | Skip \<Rightarrow> (if c = CHR ''>'' then (Data, tags) else (Skip, tags))))"

definition start_tags :: "string \<Rightarrow> string list" where
  "start_tags markup = snd (foldl tokenizer_step (Data, []) markup)"

text \<open>
  What inserting a string as text amounts to: the characters that the parser would read
  as markup are written as character references.
\<close>

definition as_text :: "string \<Rightarrow> string" where
  "as_text s =
    concat (map (\<lambda>c. if c = CHR ''<'' then ''&lt;'' else if c = CHR ''>'' then ''&gt;''
                       else if c = CHR ''&'' then ''&amp;'' else [c]) s)"

section \<open>Scroll progress tracker\<close>

text \<open>
  A JavaScript number is a finite value, an infinity or NaN. Finite arithmetic is taken
  exactly, on rationals; what is modelled of IEEE arithmetic is the outcome of a division
  by zero. The scroll metrics that the DOM returns are finite.
\<close>

datatype jsnum = Num rat | PosInfinity | NegInfinity | NaN

record scroll_metrics =
  body_scrollTop :: rat
  documentElement_scrollTop :: rat
  scrollHeight :: rat
  clientHeight :: rat

text \<open>\<^verbatim>\<open>a || b\<close> on finite numbers: zero is falsy.\<close>

definition js_or :: "rat \<Rightarrow> rat \<Rightarrow> rat" where
  "js_or a b = (if a \<noteq> 0 then a else b)"

definition js_divide :: "rat \<Rightarrow> rat \<Rightarrow> jsnum" where
  "js_divide a b =
    (if b \<noteq> 0 then Num (a / b)
     else if a = 0 then NaN
     else if a > 0 then PosInfinity else NegInfinity)"

text \<open>Multiplication by a positive finite factor.\<close>

definition js_times :: "jsnum \<Rightarrow> rat \<Rightarrow> jsnum" where
  "js_times x k = (case x of Num v \<Rightarrow> Num (v * k) | PosInfinity \<Rightarrow> PosInfinity
                   | NegInfinity \<Rightarrow> NegInfinity | NaN \<Rightarrow> NaN)"

text \<open>\<^verbatim>\<open>Math.min(x, k)\<close> for a finite \<open>k\<close>.\<close>

definition Math_min :: "jsnum \<Rightarrow> rat \<Rightarrow> jsnum" where
  "Math_min x k = (case x of Num v \<Rightarrow> Num (min v k) | PosInfinity \<Rightarrow> Num k
                   | NegInfinity \<Rightarrow> NegInfinity | NaN \<Rightarrow> NaN)"

text \<open>
  \<^verbatim>\<open>updateReadingProgress()\<close>: the number whose rendering, followed by \<^verbatim>\<open>%\<close>, is
  assigned to the width of the progress bar.
\<close>

definition updateReadingProgress :: "scroll_metrics \<Rightarrow> jsnum" where
  "updateReadingProgress m =
    (let winScroll = js_or (body_scrollTop m) (documentElement_scrollTop m);
         height = scrollHeight m - clientHeight m;
         scrolled = js_times (js_divide winScroll height) 100
     in Math_min scrolled 100)"

text \<open>The percentage as the specification defines it for a ScrollState.\<close>

definition spec_percentage :: "rat \<Rightarrow> rat \<Rightarrow> rat" where
  "spec_percentage offset totalScrollable =
    (if totalScrollable \<le> 0 then 0 else max 0 (min 100 (offset / totalScrollable * 100)))"

definition zero_height_metrics :: scroll_metrics where
  "zero_height_metrics =
    \<lparr>body_scrollTop = 0, documentElement_scrollTop = 0, scrollHeight = 800, clientHeight = 800\<rparr>"

section \<open>Clipboard copy service\<close>

text \<open>
  The state that the fallback path touches: the label and the classes of the copy
  button, the values of the temporary text areas attached to the body, the timers set,
  and the number of messages on the developer console. What
  \<^verbatim>\<open>document.execCommand('copy')\<close> does is the host's choice: it throws, or it returns
  a boolean.
\<close>

datatype exec_outcome = Throws | Returns bool

datatype timer_action = ResetCopied | ResetError

record copy_state =
  button_textContent :: string
  button_classList :: "string set"
  body_textAreas :: "string list"
  timers :: "(nat \<times> timer_action) list"
  console_errors :: nat

definition showCopySuccess :: "copy_state \<Rightarrow> copy_state" where
  "showCopySuccess st =
    st\<lparr>button_textContent := ''Copied!'',
       button_classList := insert ''copied'' (button_classList st),
       timers := timers st @ [(2000, ResetCopied)]\<rparr>"

text \<open>
  \<^verbatim>\<open>fallbackCopyToClipboard(text, button)\<close>: the value of \<^verbatim>\<open>execCommand\<close> is not
  read; the \<^verbatim>\<open>catch\<close> block runs when it throws; the text area is removed after
  the \<^verbatim>\<open>try\<close> statement.
\<close>

definition fallbackCopyToClipboard :: "string \<Rightarrow> exec_outcome \<Rightarrow> copy_state \<Rightarrow> copy_state" where
  "fallbackCopyToClipboard text exec st =
    (let attached = st\<lparr>body_textAreas := body_textAreas st @ [text]\<rparr>;
         after_try =
           (case exec of
              Returns b \<Rightarrow> showCopySuccess attached
            | Throws \<Rightarrow>
                attached\<lparr>console_errors := Suc (console_errors attached),
                         button_textContent := ''Failed'',
                         button_classList := insert ''error'' (button_classList attached),
                         timers := timers attached @ [(2000, ResetError)]\<rparr>)
     in after_try\<lparr>body_textAreas := butlast (body_textAreas after_try)\<rparr>)"

definition idle_copy_state :: copy_state where
  "idle_copy_state =
    \<lparr>button_textContent = ''Copy'', button_classList = {}, body_textAreas = [], timers = [],
     console_errors = 0\<rparr>"

section \<open>Example pages\<close>

text \<open>The document of the repository's tests: a heading with id section1 and a paragraph.\<close>

definition test_region :: node where
  "test_region =
    Element ''div'' [] [
      Element ''h2'' ''section1'' [TextNode ''Section 1''],
      Element ''p'' [] [TextNode ''This is some content for testing search functionality.'']]"

text \<open>A region without any heading: its paragraphs are ungrouped content.\<close>

definition ungrouped_region :: node where
  "ungrouped_region =
    Element ''div'' [] [
      Element ''p'' [] [TextNode ''plain text''],
      Element ''p'' [] [TextNode ''more plain text'']]"



text \<open>A paragraph whose text contains the two characters \<^verbatim>\<open>a\<close>, space.\<close>

definition spaced_region :: node where
  "spaced_region = Element ''div'' [] [Element ''p'' [] [TextNode ''a b'']]"

definition spaced_paragraph :: element where
  "spaced_paragraph = \<lparr>path = [0], tagName = ''p'', elem_id = [], textContent = ''a b''\<rparr>"

section \<open>Deduplication as the specification words it\<close>

text \<open>
  The first record for each distinct non-null section id is kept, and every record
  whose section id is null is kept.
\<close>

fun retained_by_spec :: "result list \<Rightarrow> string set \<Rightarrow> result list" where
  "retained_by_spec [] seen = []"
| "retained_by_spec (r # rs) seen =
    (case id' r of
       None \<Rightarrow> r # retained_by_spec rs seen
     | Some i \<Rightarrow> if i \<in> seen then retained_by_spec rs seen
                else r # retained_by_spec rs (insert i seen))"



text \<open>A paragraph and an input that hold a no-break space.\<close>

definition nbsp_page :: page where
  "nbsp_page =
    \<lparr>searchInput_value = ''a'' @ [CHR 0xA0],
     mainContent = Element ''div'' [] [Element ''p'' [] [TextNode (''a'' @ CHR 0xA0 # ''b'')]]\<rparr>"

definition ungrouped_page :: page where
  "ungrouped_page = \<lparr>searchInput_value = ''plain'', mainContent = ungrouped_region\<rparr>"

definition spaced_page :: page where
  "spaced_page = \<lparr>searchInput_value = ''a '', mainContent = spaced_region\<rparr>"

definition markup_page :: page where
  "markup_page = \<lparr>searchInput_value = ''<b>x</b>'', mainContent = test_region\<rparr>"

definition section_page :: page where
  "section_page = \<lparr>searchInput_value = ''se'', mainContent = test_region\<rparr>"

definition testing_page :: page where
  "testing_page = \<lparr>searchInput_value = '' Testing '', mainContent = test_region\<rparr>"

section \<open>Verification\<close>

subsection \<open>Language sniffing\<close>


lemma includes_str_iff: "includes_str s t \<longleftrightarrow> (\<exists>p q. s = p @ t @ q)"
proof (induction s)
  case Nil
  then show ?case by simp
next
  case (Cons c cs)
  show ?case
  proof
    assume "includes_str (c # cs) t"
    then consider "prefix t (c # cs)" | "includes_str cs t" by auto
    then show "\<exists>p q. c # cs = p @ t @ q"
    proof cases
      case 1
      then obtain q where "c # cs = t @ q" by (auto simp: prefix_def)
      then have "c # cs = [] @ t @ q" by simp
      then show ?thesis by blast
    next
      case 2
      with Cons.IH obtain p q where "cs = p @ t @ q" by blast
      then have "c # cs = (c # p) @ t @ q" by simp
      then show ?thesis by blast
    qed
  next
    assume "\<exists>p q. c # cs = p @ t @ q"
    then obtain p q where pq: "c # cs = p @ t @ q" by blast
    show "includes_str (c # cs) t"
    proof (cases p)
      case Nil
      with pq have "prefix t (c # cs)" by (simp add: prefix_def)
      then show ?thesis by simp
    next
      case (Cons d p')
      with pq have "cs = p' @ t @ q" by simp
      with Cons.IH have "includes_str cs t" by blast
      then show ?thesis by simp
    qed
  qed
qed
lemma first_matching_rule_Nil: "first_matching_rule [] c = ''bash''"
  by (simp add: first_matching_rule_def)

lemma first_matching_rule_Cons:
  "first_matching_rule (r # rs) c = (if fst r c then snd r else first_matching_rule rs c)"
  by (simp add: first_matching_rule_def)

lemma shell_rule_iff:
  "shell_rule code \<longleftrightarrow>
     includes_str code ''#!/bin/bash'' \<or> includes_str code ''echo '' \<or>
     includes_str code ''mkdir '' \<or> includes_str code ''cd '' \<or>
     includes_str code ''ls '' \<or> includes_str code ''git '' \<or>
     includes_str code ''claude ''"
  by (simp add: shell_rule_def any_marker_def del: includes_str.simps)

lemma json_rule_iff:
  "json_rule code \<longleftrightarrow>
     includes_str code ''{'' \<and> includes_str code ''}'' \<and>
        (includes_str code (CHR 0x22 # ''hooks'' @ [CHR 0x22]) \<or>
         includes_str code (CHR 0x22 # ''PreToolUse'' @ [CHR 0x22]) \<or>
         includes_str code (CHR 0x22 # ''matcher'' @ [CHR 0x22]))"
  by (simp add: json_rule_def any_marker_def all_marker_def del: includes_str.simps)

lemma frontmatter_rule_iff:
  "frontmatter_rule code \<longleftrightarrow>
     includes_str code (''---'' @ CHR 0x0A # ''name:'') \<or> includes_str code ''description:''"
  by (simp add: frontmatter_rule_def any_marker_def del: includes_str.simps)

lemma generic_keyword_rule_iff:
  "generic_keyword_rule code \<longleftrightarrow>
     includes_str code ''function'' \<or> includes_str code ''const '' \<or> includes_str code ''let ''"
  by (simp add: generic_keyword_rule_def any_marker_def del: includes_str.simps)

lemma scripting_keyword_rule_iff:
  "scripting_keyword_rule code \<longleftrightarrow>
     includes_str code ''def '' \<or> includes_str code ''import '' \<or> includes_str code ''python''"
  by (simp add: scripting_keyword_rule_def any_marker_def del: includes_str.simps)

lemma detectLanguage_first_match: "detectLanguage code = first_matching_rule sniff_rules code"
  by (simp only: sniff_rules_def first_matching_rule_Cons first_matching_rule_Nil fst_conv
      snd_conv shell_rule_iff json_rule_iff frontmatter_rule_iff generic_keyword_rule_iff
      scripting_keyword_rule_iff detectLanguage_def)

text \<open>
  C8. Language sniffing evaluates its rules in the fixed order shell, JSON, markdown
  frontmatter, generic language keywords, scripting-language keywords, default shell, and
  the first rule that matches decides. An input with a shell marker and a JSON-shaped
  structure resolves to the shell language; \<^verbatim>\<open>echo '{"hooks": {}}'\<close> gives
  \<^verbatim>\<open>bash\<close>, not \<^verbatim>\<open>json\<close>.
\<close>

theorem detectLanguage_priority:
  "detectLanguage code = first_matching_rule sniff_rules code
   \<and> (shell_rule code \<and> json_rule code \<longrightarrow> detectLanguage code = ''bash'')
   \<and> shell_rule echo_hooks_example \<and> json_rule echo_hooks_example
   \<and> detectLanguage echo_hooks_example = ''bash''
   \<and> detectLanguage echo_hooks_example \<noteq> ''json''"
proof -
  have ex: "shell_rule echo_hooks_example" "json_rule echo_hooks_example"
    by (simp_all add: shell_rule_def json_rule_def any_marker_def all_marker_def
        echo_hooks_example_def)
  have pri: "shell_rule c \<Longrightarrow> detectLanguage c = ''bash''" for c
    by (simp only: detectLanguage_first_match sniff_rules_def first_matching_rule_Cons
        fst_conv snd_conv if_True)
  have "detectLanguage echo_hooks_example = ''bash''"
    using ex(1) by (rule pri)
  with ex pri [of code] show ?thesis
    using detectLanguage_first_match [of code] by simp
qed

theorem detectLanguage_priority_witness:
  "shell_rule echo_hooks_example \<and> json_rule echo_hooks_example
   \<and> detectLanguage echo_hooks_example = ''bash''
   \<and> first_matching_rule (tl sniff_rules) echo_hooks_example = ''json''"
proof -
  have "json_rule echo_hooks_example"
    using detectLanguage_priority [of echo_hooks_example] by blast
  then have "first_matching_rule (tl sniff_rules) echo_hooks_example = ''json''"
    by (simp only: sniff_rules_def list.sel first_matching_rule_Cons fst_conv snd_conv if_True)
  with detectLanguage_priority [of echo_hooks_example] show ?thesis by blast
qed

subsection \<open>Escaped patterns always compile\<close>

lemma escaped_class_syntax: "c \<in> set escaped_class \<Longrightarrow> c \<in> set syntax_chars"
  by (auto simp: escaped_class_def syntax_chars_def)

lemma step_meta:
  assumes "\<not> escaped st" "quantifier st = None" "c \<in> set escaped_class"
  shows "parse_from st (backslash # c # rest) = parse_from (push_atom (Chr c) st) rest"
proof -
  have 1: "step backslash st = Inr (st\<lparr>escaped := True, opened := False\<rparr>)"
    using assms(1,2) by (simp add: step_def plain_step_def backslash_def)
  have 2: "step c (st\<lparr>escaped := True, opened := False\<rparr>) = Inr (push_atom (Chr c) st)"
    using assms escaped_class_syntax [OF assms(3)] by (simp add: step_def push_atom_def)
  show ?thesis by (simp add: 1 2)
qed

lemma step_plain:
  assumes "\<not> escaped st" "quantifier st = None" "c \<notin> set escaped_class"
  shows "parse_from st (c # rest) = parse_from (push_atom (Chr c) st) rest"
proof -
  have "step c st = Inr (push_atom (Chr c) st)"
    using assms by (simp add: step_def plain_step_def escaped_class_def backslash_def)
  then show ?thesis by simp
qed

lemma push_atom_fields [simp]:
  "escaped (push_atom t st) = escaped st" "quantifier (push_atom t st) = quantifier st"
  "terms (push_atom t st) = terms st @ [t]" "stack (push_atom t st) = stack st"
  "alts (push_atom t st) = alts st" "group_no (push_atom t st) = group_no st"
  "next_group (push_atom t st) = next_group st" "opened (push_atom t st) = False"
  "atom (push_atom t st) = True"
  by (simp_all add: push_atom_def)

lemma parse_escaped:
  "\<not> escaped st \<Longrightarrow> quantifier st = None \<Longrightarrow>
   parse_from st (escapeRegExp q @ rest) = parse_from (foldl (\<lambda>s c. push_atom (Chr c) s) st q) rest"
proof (induction q arbitrary: st)
  case Nil
  then show ?case by (simp add: escapeRegExp_def)
next
  case (Cons c q)
  have esc: "escapeRegExp (c # q) = (if c \<in> set escaped_class then [backslash, c] else [c]) @ escapeRegExp q"
    by (simp add: escapeRegExp_def)
  have "parse_from st (escapeRegExp (c # q) @ rest) = parse_from (push_atom (Chr c) st) (escapeRegExp q @ rest)"
  proof (cases "c \<in> set escaped_class")
    case True
    then have "escapeRegExp (c # q) @ rest = backslash # c # (escapeRegExp q @ rest)"
      by (simp add: esc)
    then show ?thesis using step_meta [OF Cons.prems True] by (simp only:)
  next
    case False
    then have "escapeRegExp (c # q) @ rest = c # (escapeRegExp q @ rest)"
      by (simp add: esc)
    then show ?thesis using step_plain [OF Cons.prems False] by (simp only:)
  qed
  also have "\<dots> = parse_from (foldl (\<lambda>s c. push_atom (Chr c) s) (push_atom (Chr c) st) q) rest"
    using Cons.prems by (intro Cons.IH) simp_all
  finally show ?case by simp
qed

lemma foldl_push_atom:
  "foldl (\<lambda>s c. push_atom (Chr c) s) st q =
     (if q = [] then st else st\<lparr>terms := terms st @ map Chr q, atom := True, opened := False\<rparr>)"
proof (induction q arbitrary: st)
  case Nil
  then show ?case by simp
next
  case (Cons c q)
  then show ?case by (simp add: push_atom_def)
qed

lemma RegExp_escaped:
  "RegExp (''('' @ escapeRegExp q @ '')'') = Inr (Cat (Group 1 (seq_of (map Chr q))) Eps)"
proof -
  define st1 where "st1 = \<lparr>stack = [([], [], 0)], alts = [], terms = [], group_no = 1, next_group = 2,
     escaped = False, quantifier = None, atom = False, opened = True\<rparr>"
  have open_step: "step CHR ''('' initial_parser = Inr st1"
    by (simp add: step_def plain_step_def initial_parser_def backslash_def st1_def)
  define st2 where "st2 = foldl (\<lambda>s c. push_atom (Chr c) s) st1 q"
  have st2: "stack st2 = [([], [], 0)]" "alts st2 = []" "terms st2 = map Chr q" "group_no st2 = 1"
    "\<not> escaped st2" "quantifier st2 = None"
    by (simp_all add: st2_def foldl_push_atom st1_def)
  have close: "parse_from st2 '')'' = Inr (Cat (Group 1 (seq_of (map Chr q))) Eps)"
    using st2 by (simp add: step_def plain_step_def backslash_def finish_def close_frame_def seq_of_def)
  have "RegExp (''('' @ escapeRegExp q @ '')'') = parse_from st1 (escapeRegExp q @ '')'')"
    by (simp add: RegExp_def open_step)
  also have "\<dots> = parse_from st2 '')''"
    unfolding st2_def by (rule parse_escaped) (simp_all add: st1_def)
  finally show ?thesis by (simp only: close)
qed

lemma highlightText_total:
  "highlightText text query =
     Inr (if query = [] then text else replace_all (Cat (Group 1 (seq_of (map Chr query))) Eps) text)"
  by (simp add: highlightText_def RegExp_escaped del: append.simps One_nat_def)

text \<open>
  The pattern compiled from an escaped query matches the characters of the query and
  nothing else: at a position of the text it has a match exactly when the text continues
  with the query, letter case apart, and group 1 captures that piece of the text.
\<close>

lemma seq_of_Cons: "seq_of (t # ts) = Cat t (seq_of ts)"
  by (simp add: seq_of_def)

lemma ends_literal:
  "ends (seq_of (map Chr q)) s cap =
     (if length q \<le> length s \<and> map toUpperChar (take (length q) s) = map toUpperChar q
      then [(drop (length q) s, cap)] else [])"
proof (induction q arbitrary: s)
  case Nil
  then show ?case by (simp add: seq_of_def)
next
  case (Cons c q)
  show ?case
  proof (cases s)
    case Nil
    then show ?thesis by (simp add: seq_of_Cons)
  next
    case (Cons x xs)
    then show ?thesis using Cons.IH [of xs] by (simp add: seq_of_Cons)
  qed
qed

lemma ends_escaped_query:
  "ends (Cat (Group 1 (seq_of (map Chr q))) Eps) s cap =
     (if length q \<le> length s \<and> map toUpperChar (take (length q) s) = map toUpperChar q
      then [(drop (length q) s, Some (take (length q) s))] else [])"
  by (simp add: ends_literal)

text \<open>
  The escaping is what makes the constructor total on queries: unescaped, a query that is
  a lone quantifier or an open parenthesis is a syntax error.
\<close>

lemma unescaped_query_throws:
  "RegExp (''('' @ ''*'' @ '')'') = Inl SyntaxError
   \<and> RegExp (''('' @ ''a('' @ '')'') = Inl SyntaxError
   \<and> RegExp (''('' @ ''a)b'' @ '')'') = Inl SyntaxError
   \<and> RegExp (''('' @ ''a'' @ [backslash] @ '')'') = Inl SyntaxError"
  by code_simp

text \<open>
  C3. For every text and every non-empty query, \<^verbatim>\<open>highlightText\<close> returns a value
  and raises nothing: each metacharacter of the query has been escaped, so the pattern
  handed to the constructor compiles, to one capture group that matches the characters of
  the query literally.
\<close>

theorem highlightText_never_throws:
  "query \<noteq> [] \<Longrightarrow>
     RegExp (''('' @ escapeRegExp query @ '')'') = Inr (Cat (Group 1 (seq_of (map Chr query))) Eps)
     \<and> highlightText text query = Inr (replace_all (Cat (Group 1 (seq_of (map Chr query))) Eps) text)
     \<and> highlightText text query \<noteq> Inl SyntaxError"
  by (simp add: highlightText_total RegExp_escaped del: append.simps One_nat_def)

theorem highlightText_never_throws_witness:
  "''a.b*c'' \<noteq> []
   \<and> escapeRegExp ''a.b*c'' = ''a'' @ backslash # ''.b'' @ backslash # ''*c''
   \<and> highlightText ''xa.b*c, axbbc'' ''a.b*c'' =
       Inr (''x'' @ highlight_replacement (Some ''a.b*c'') @ '', axbbc'')"
proof -
  have ne: "''a.b*c'' \<noteq> []" by simp
  have esc: "escapeRegExp ''a.b*c'' = ''a'' @ backslash # ''.b'' @ backslash # ''*c''"
    by code_simp
  have run: "replace_all (Cat (Group 1 (seq_of (map Chr ''a.b*c''))) Eps) ''xa.b*c, axbbc''
      = ''x'' @ highlight_replacement (Some ''a.b*c'') @ '', axbbc''"
    by code_simp
  from highlightText_never_throws [OF ne, of "''xa.b*c, axbbc''"]
  have "highlightText ''xa.b*c, axbbc'' ''a.b*c'' =
      Inr (replace_all (Cat (Group 1 (seq_of (map Chr ''a.b*c''))) Eps) ''xa.b*c, axbbc'')"
    by blast
  with run have "highlightText ''xa.b*c, axbbc'' ''a.b*c'' =
      Inr (''x'' @ highlight_replacement (Some ''a.b*c'') @ '', axbbc'')"
    by (simp only:)
  with ne esc show ?thesis by blast
qed

subsection \<open>Deduplication and rendering\<close>

text \<open>The decimal rendering of a number reads back as that number.\<close>

lemma digit_value_digit_char: "d < 10 \<Longrightarrow> digit_value (digit_char d) = d"
proof -
  assume "d < 10"
  then have "d = 0 \<or> d = 1 \<or> d = 2 \<or> d = 3 \<or> d = 4 \<or> d = 5 \<or> d = 6 \<or> d = 7
    \<or> d = 8 \<or> d = 9" by arith
  then show ?thesis
    by (elim disjE) (simp_all add: digit_value_def digit_char_def)
qed

lemma read_nat_snoc: "read_nat (s @ [c]) = 10 * read_nat s + digit_value c"
  by (simp add: read_nat_def)

lemma read_show_nat: "read_nat (show_nat n) = n"
proof (induction n rule: show_nat.induct)
  case (1 n)
  show ?case
  proof (cases "n < 10")
    case True
    then show ?thesis
      by (subst show_nat.simps) (simp add: read_nat_def digit_value_digit_char)
  next
    case False
    with "1" have "read_nat (show_nat (n div 10)) = n div 10" by simp
    with False show ?thesis
      by (subst show_nat.simps) (simp add: read_nat_snoc digit_value_digit_char)
  qed
qed

lemma dedupe_acc: "dedupe rs seen acc = acc @ dedupe rs seen []"
proof (induction rs arbitrary: seen acc)
  case Nil
  then show ?case by simp
next
  case (Cons r rs)
  show ?case
  proof (cases "heading r")
    case None
    then show ?thesis using Cons.IH [of seen acc] by simp
  next
    case (Some h)
    show ?thesis
    proof (cases "elem_id h \<in> seen")
      case True
      with Some show ?thesis using Cons.IH [of seen acc] by simp
    next
      case False
      with Some show ?thesis
        using Cons.IH [of "insert (elem_id h) seen" "acc @ [r]"]
          Cons.IH [of "insert (elem_id h) seen" "[r]"] by simp
    qed
  qed
qed

lemma dedupe_length: "length (dedupe rs seen []) \<le> length rs"
proof (induction rs arbitrary: seen)
  case Nil
  then show ?case by simp
next
  case (Cons r rs)
  have "length (dedupe rs s [r]) \<le> Suc (length rs)" for s
    using Cons.IH [of s] by (subst dedupe_acc) simp
  moreover have "length (dedupe rs s []) \<le> Suc (length rs)" for s
    using Cons.IH [of s] by simp
  ultimately show ?case by (simp split: option.splits)
qed

lemma dedupe_subset: "set (dedupe rs seen []) \<subseteq> {r \<in> set rs. heading r \<noteq> None}"
proof (induction rs arbitrary: seen)
  case Nil
  then show ?case by simp
next
  case (Cons r rs)
  have 1: "set (dedupe rs s [r]) = insert r (set (dedupe rs s []))" for s
    by (subst dedupe_acc) simp
  show ?case using Cons.IH by (auto simp: 1 split: option.splits)
qed

lemma dedupe_all_null: "\<forall>r \<in> set rs. heading r = None \<Longrightarrow> dedupe rs seen acc = acc"
  by (induction rs arbitrary: seen acc) simp_all

lemma dedupe_ids_fresh:
  "r \<in> set (dedupe rs seen []) \<Longrightarrow> heading r = Some h \<Longrightarrow> elem_id h \<notin> seen"
proof (induction rs arbitrary: seen)
  case Nil
  then show ?case by simp
next
  case (Cons x rs)
  have 1: "set (dedupe rs s [x]) = insert x (set (dedupe rs s []))" for s
    by (subst dedupe_acc) simp
  show ?case
  proof (cases "heading x")
    case None
    with Cons show ?thesis by simp
  next
    case (Some hx)
    show ?thesis
    proof (cases "elem_id hx \<in> seen")
      case True
      with Some Cons show ?thesis by simp
    next
      case False
      with Some Cons.prems have "r = x \<or> r \<in> set (dedupe rs (insert (elem_id hx) seen) [])"
        by (simp add: 1)
      then show ?thesis
      proof
        assume "r = x"
        with Some Cons.prems(2) False show ?thesis by simp
      next
        assume "r \<in> set (dedupe rs (insert (elem_id hx) seen) [])"
        from Cons.IH [OF this Cons.prems(2)] show ?thesis by simp
      qed
    qed
  qed
qed

lemma dedupe_distinct_ids:
  "distinct (map (\<lambda>r. map_option elem_id (heading r)) (dedupe rs seen []))"
proof (induction rs arbitrary: seen)
  case Nil
  then show ?case by simp
next
  case (Cons x rs)
  show ?case
  proof (cases "heading x")
    case None
    with Cons show ?thesis by simp
  next
    case (Some hx)
    show ?thesis
    proof (cases "elem_id hx \<in> seen")
      case True
      with Some Cons show ?thesis by simp
    next
      case False
      have eq: "dedupe rs (insert (elem_id hx) seen) [x] = x # dedupe rs (insert (elem_id hx) seen) []"
        by (subst dedupe_acc) simp
      have "map_option elem_id (heading x) \<notin>
          (\<lambda>r. map_option elem_id (heading r)) ` set (dedupe rs (insert (elem_id hx) seen) [])"
      proof
        assume "map_option elem_id (heading x) \<in>
          (\<lambda>r. map_option elem_id (heading r)) ` set (dedupe rs (insert (elem_id hx) seen) [])"
        then obtain r where r: "r \<in> set (dedupe rs (insert (elem_id hx) seen) [])"
          and e: "map_option elem_id (heading x) = map_option elem_id (heading r)"
          by blast
        from e Some have m: "map_option elem_id (heading r) = Some (elem_id hx)" by simp
        from m obtain h where h: "heading r = Some h" "elem_id h = elem_id hx"
          by (cases "heading r") auto
        from dedupe_ids_fresh [OF r h(1)] h(2) show False by simp
      qed
      with Some False Cons.IH [of "insert (elem_id hx) seen"] show ?thesis
        by (simp add: eq)
    qed
  qed
qed

lemma displayed_length: "length (displayed results) \<le> 5 \<and> length (displayed results) \<le> length results"
  using dedupe_length [of results "{}"] by (simp add: displayed_def uniqueResults_def)

lemma displayed_headings: "r \<in> set (displayed results) \<Longrightarrow> heading r \<noteq> None \<and> r \<in> set results"
  using dedupe_subset [of results "{}"] by (auto simp: displayed_def uniqueResults_def dest: in_set_takeD)

lemma render_result_total: "\<exists>h. render_result query r = Inr h"
  by (simp add: render_result_def highlightText_total del: append.simps)

lemma render_results_total: "\<exists>hs. render_results query rs = Inr hs \<and> length hs = length rs"
proof (induction rs)
  case Nil
  then show ?case by simp
next
  case (Cons r rs)
  from render_result_total obtain h where "render_result query r = Inr h" by blast
  with Cons show ?case by auto
qed

subsection \<open>Truncation and the result header\<close>

lemma header_not_message: "results_header results @ rest \<noteq> no_results_message query"
  by (simp add: results_header_def no_results_message_def newline_def)







subsection \<open>Ungrouped matches and short queries\<close>

text \<open>
  C10. When the match list is not empty and every record has a null section heading,
  the result area holds the header with the number of matches and no result entry, and the
  message for no results is not shown. No rendered record has a null heading, so the
  fallback label \<^verbatim>\<open>Content\<close> is never the heading text of an entry.
\<close>

theorem null_headings_header_only:
  "(results \<noteq> [] \<and> (\<forall>r \<in> set results. heading r = None) \<longrightarrow>
      displayed results = []
      \<and> displaySearchResults results query = Inr (results_header results @ newline @ spaces 8)
      \<and> displaySearchResults results query \<noteq> Inr (no_results_message query))
   \<and> (\<forall>r \<in> set (displayed results). \<exists>h. heading r = Some h \<and> headingText r = textContent h)"
proof -
  have a: "displayed results = []" if "\<forall>r \<in> set results. heading r = None"
    using dedupe_all_null [OF that, of "{}" "[]"] by (simp add: displayed_def uniqueResults_def)
  have b: "displaySearchResults results query = Inr (results_header results @ newline @ spaces 8)"
    if "results \<noteq> []" "\<forall>r \<in> set results. heading r = None"
    using that a by (simp add: displaySearchResults_def)
  have c: "\<exists>h. heading r = Some h \<and> headingText r = textContent h" if "r \<in> set (displayed results)" for r
  proof -
    from displayed_headings [OF that] obtain h where "heading r = Some h" by auto
    then show ?thesis by (simp add: headingText_def)
  qed
  from a b c header_not_message [of results "newline @ spaces 8" query] show ?thesis
    by (metis sum.inject(2))
qed

lemma ungrouped_found:
  "map (\<lambda>r. (path (element r), heading r, id' r)) (found (performSearch ungrouped_page))
     = [([0], None, None), ([1], None, None)]"
  by code_simp

theorem null_headings_header_only_witness:
  "found (performSearch ungrouped_page) \<noteq> []
   \<and> map heading (found (performSearch ungrouped_page)) = [None, None]
   \<and> displayed (found (performSearch ungrouped_page)) = []
   \<and> innerHTML (performSearch ungrouped_page) =
       Inr (results_header (found (performSearch ungrouped_page)) @ newline @ spaces 8)
   \<and> innerHTML (performSearch ungrouped_page) \<noteq> Inr (no_results_message ''plain'')
   \<and> results_header (found (performSearch ungrouped_page)) =
       newline @ spaces 12 @ ''<div class='' @ dquote # ''search-results-header'' @ dquote # ''>'' @
       newline @ spaces 16 @ ''Found 2 results'' @ newline @ spaces 12 @ ''</div>'' @
       newline @ spaces 12"
proof -
  let ?rs = "found (performSearch ungrouped_page)"
  have ne: "?rs \<noteq> []" using ungrouped_found by auto
  have hs: "map heading ?rs = [None, None]" by code_simp
  have nulls: "\<forall>r \<in> set ?rs. heading r = None"
  proof
    fix r assume "r \<in> set ?rs"
    then have "heading r \<in> set (map heading ?rs)" by simp
    then show "heading r = None" by (simp add: hs)
  qed
  have html: "innerHTML (performSearch ungrouped_page) = displaySearchResults ?rs ''plain''"
    by code_simp
  from null_headings_header_only [of ?rs "''plain''"] ne nulls
  have "displayed ?rs = []"
    "displaySearchResults ?rs ''plain'' = Inr (results_header ?rs @ newline @ spaces 8)"
    "displaySearchResults ?rs ''plain'' \<noteq> Inr (no_results_message ''plain'')"
    by blast+
  moreover have "results_header ?rs =
       newline @ spaces 12 @ ''<div class='' @ dquote # ''search-results-header'' @ dquote # ''>'' @
       newline @ spaces 16 @ ''Found 2 results'' @ newline @ spaces 12 @ ''</div>'' @
       newline @ spaces 12"
    by code_simp
  ultimately show ?thesis using ne hs html by simp
qed

text \<open>
  C5. When the lower-cased, trimmed input is shorter than 2 characters, the search
  produces an empty result array, the result area is cleared, nothing is raised, and no
  section of the corpus is read.
\<close>

theorem short_query_clears:
  "length (trim (toLowerCase (searchInput_value pg))) < 2 \<Longrightarrow>
     performSearch pg = \<lparr>scanned = [], found = [], innerHTML = Inr []\<rparr>"
  by (simp add: performSearch_def clearSearchResults_def)

theorem short_query_clears_witness:
  "length (trim (toLowerCase (searchInput_value spaced_page))) < 2
   \<and> performSearch spaced_page = \<lparr>scanned = [], found = [], innerHTML = Inr []\<rparr>
   \<and> querySelectorAll (mainContent spaced_page) searchable_tags \<noteq> []"
proof -
  have short: "length (trim (toLowerCase (searchInput_value spaced_page))) < 2"
    by code_simp
  have corpus: "querySelectorAll (mainContent spaced_page) searchable_tags \<noteq> []"
    by code_simp
  from short_query_clears [OF short] short corpus show ?thesis by simp
qed

subsection \<open>Deduplication against the specification\<close>

lemma dedupe_grouped:
  "\<forall>r \<in> set rs. \<exists>h. heading r = Some h \<and> id' r = Some (elem_id h) \<Longrightarrow>
     dedupe rs seen [] = retained_by_spec rs seen"
proof (induction rs arbitrary: seen)
  case Nil
  then show ?case by simp
next
  case (Cons r rs)
  then obtain h where h: "heading r = Some h" "id' r = Some (elem_id h)" by auto
  have rest: "dedupe rs s [] = retained_by_spec rs s" for s
    using Cons by simp
  have "dedupe rs s [r] = r # dedupe rs s []" for s
    by (subst dedupe_acc) simp
  with h rest show ?case by simp
qed

lemma dedupe_drops_ungrouped:
  "\<forall>r \<in> set rs. id' r = map_option elem_id (heading r) \<Longrightarrow>
     dedupe rs seen [] = retained_by_spec (filter (\<lambda>r. heading r \<noteq> None) rs) seen"
proof (induction rs arbitrary: seen)
  case Nil
  then show ?case by simp
next
  case (Cons r rs)
  have rest: "dedupe rs s [] = retained_by_spec (filter (\<lambda>r. heading r \<noteq> None) rs) s" for s
    using Cons by simp
  have push: "dedupe rs s [r] = r # dedupe rs s []" for s
    by (subst dedupe_acc) simp
  from Cons.prems have "id' r = map_option elem_id (heading r)" by simp
  with rest push show ?case by (cases "heading r") simp_all
qed

lemma scan_section_ids:
  "\<forall>r \<in> set acc. id' r = map_option elem_id (heading r) \<Longrightarrow>
     \<forall>r \<in> set (scan_sections region q secs acc). id' r = map_option elem_id (heading r)"
proof (induction secs arbitrary: acc)
  case Nil
  then show ?case by simp
next
  case (Cons s secs)
  let ?r = "\<lparr>element = s, heading = findParentHeading region (path s), text' = textContent s,
             id' = (case findParentHeading region (path s) of Some h \<Rightarrow> Some (elem_id h) | None \<Rightarrow> None)\<rparr>"
  have new: "\<forall>r \<in> set (acc @ [?r]). id' r = map_option elem_id (heading r)"
    using Cons.prems by (auto split: option.splits)
  from Cons.IH [OF new] Cons.IH [OF Cons.prems] show ?case
    by (simp add: Let_def)
qed

lemma performSearch_unique:
  "uniqueResults (found (performSearch pg)) =
     retained_by_spec (filter (\<lambda>r. heading r \<noteq> None) (found (performSearch pg))) {}"
proof -
  have "\<forall>r \<in> set (found (performSearch pg)). id' r = map_option elem_id (heading r)"
    using scan_section_ids [of "[]"] by (simp add: performSearch_def Let_def)
  then show ?thesis unfolding uniqueResults_def by (rule dedupe_drops_ungrouped)
qed

text \<open>
  C1. The deduplicated list is claimed to hold the first record for each distinct
  non-null section id and every record whose section id is null. On a region without
  headings the search finds two records with a null section id; the specification retains
  both, the loop of \<^verbatim>\<open>displaySearchResults\<close> retains none.
\<close>

theorem ungrouped_records_dropped:
  "map (\<lambda>r. (path (element r), id' r)) (found (performSearch ungrouped_page)) = [([0], None), ([1], None)]
   \<and> retained_by_spec (found (performSearch ungrouped_page)) {} = found (performSearch ungrouped_page)
   \<and> uniqueResults (found (performSearch ungrouped_page)) = []"
  by code_simp

subsection \<open>Scroll progress\<close>

lemma progress_positive_height:
  assumes "0 \<le> js_or (body_scrollTop m) (documentElement_scrollTop m)"
    and "0 < scrollHeight m - clientHeight m"
  shows "updateReadingProgress m =
     Num (spec_percentage (js_or (body_scrollTop m) (documentElement_scrollTop m))
            (scrollHeight m - clientHeight m))"
proof -
  let ?o = "js_or (body_scrollTop m) (documentElement_scrollTop m)"
  let ?t = "scrollHeight m - clientHeight m"
  have "0 \<le> ?o / ?t * 100" using assms by simp
  then have "max 0 (min 100 (?o / ?t * 100)) = min (?o / ?t * 100) 100" by (simp add: min.commute max_def)
  with assms(2) show ?thesis
    by (simp add: updateReadingProgress_def Let_def js_divide_def js_times_def Math_min_def
        spec_percentage_def)
qed

text \<open>
  C2. The percentage is claimed to be 0 when the scrollable height is 0. For a page that
  fits its window (offset 0, scroll height and client height both 800) the function
  divides 0 by 0 and the value written is NaN; with a positive offset over a zero height
  it is 100.
\<close>

theorem progress_zero_height:
  "updateReadingProgress zero_height_metrics = NaN
   \<and> spec_percentage 0 (scrollHeight zero_height_metrics - clientHeight zero_height_metrics) = 0
   \<and> updateReadingProgress (zero_height_metrics\<lparr>documentElement_scrollTop := 20\<rparr>) = Num 100"
  by (simp add: updateReadingProgress_def zero_height_metrics_def js_or_def js_divide_def
      js_times_def Math_min_def spec_percentage_def)

subsection \<open>Clipboard fallback\<close>

lemma fallback_removes_textarea:
  "body_textAreas (fallbackCopyToClipboard text exec st) = body_textAreas st"
  by (cases exec) (simp_all add: fallbackCopyToClipboard_def showCopySuccess_def Let_def)

lemma fallback_throws:
  "button_textContent (fallbackCopyToClipboard text Throws st) = ''Failed''
   \<and> ''error'' \<in> button_classList (fallbackCopyToClipboard text Throws st)"
  by (simp add: fallbackCopyToClipboard_def Let_def)

lemma fallback_returns_true:
  "button_textContent (fallbackCopyToClipboard text (Returns True) st) = ''Copied!''
   \<and> ''copied'' \<in> button_classList (fallbackCopyToClipboard text (Returns True) st)"
  by (simp add: fallbackCopyToClipboard_def showCopySuccess_def Let_def)

text \<open>
  C7. The fallback is claimed to signal failure when the copy command returns false.
  The value of the command is not read: when it returns false the button shows
  \<^verbatim>\<open>Copied!\<close> with the class \<^verbatim>\<open>copied\<close>, and no failure is signalled.
\<close>

theorem fallback_false_shows_copied:
  "fallbackCopyToClipboard ''x'' (Returns False) idle_copy_state =
     \<lparr>button_textContent = ''Copied!'', button_classList = {''copied''}, body_textAreas = [],
      timers = [(2000, ResetCopied)], console_errors = 0\<rparr>
   \<and> button_textContent (fallbackCopyToClipboard text (Returns False) st) \<noteq> ''Failed''
   \<and> fallbackCopyToClipboard text (Returns False) st = fallbackCopyToClipboard text (Returns True) st"
  by (simp add: fallbackCopyToClipboard_def showCopySuccess_def idle_copy_state_def Let_def)

subsection \<open>The message for no results\<close>

lemma no_match_message:
  "found run = [] \<Longrightarrow> displaySearchResults (found run) query = Inr (no_results_message query)"
  by (simp add: displaySearchResults_def)

text \<open>
  C4. The query of the message for no results is claimed to be inserted as text. It is
  spliced into the markup assigned to \<^verbatim>\<open>innerHTML\<close>: for the query
  \<^verbatim>\<open><b>x</b>\<close>, which matches nothing, the markup read back holds a \<^verbatim>\<open>b\<close> element
  beside the \<^verbatim>\<open>div\<close> of the message, where the query inserted as text gives the
  \<^verbatim>\<open>div\<close> alone.
\<close>

theorem no_results_query_is_markup:
  "found (performSearch markup_page) = []
   \<and> innerHTML (performSearch markup_page) = Inr (no_results_message ''<b>x</b>'')
   \<and> start_tags (no_results_message ''<b>x</b>'') = [''div'', ''b'']
   \<and> start_tags (no_results_message (as_text ''<b>x</b>'')) = [''div'']"
  by code_simp

subsection \<open>Completeness of the scan\<close>

lemma trim_decomp: "\<exists>a b. s = a @ trim s @ b"
proof -
  let ?d = "dropWhile isWhiteSpace s"
  have "trim s @ rev (takeWhile isWhiteSpace (rev ?d)) =
      rev (takeWhile isWhiteSpace (rev ?d) @ dropWhile isWhiteSpace (rev ?d))"
    by (simp only: trim_def rev_append)
  also have "\<dots> = rev (rev ?d)" by (simp only: takeWhile_dropWhile_id)
  finally have "?d = trim s @ rev (takeWhile isWhiteSpace (rev ?d))" by simp
  moreover have "s = takeWhile isWhiteSpace s @ ?d" by simp
  ultimately have "s = takeWhile isWhiteSpace s @ trim s @ rev (takeWhile isWhiteSpace (rev ?d))"
    by simp
  then show ?thesis by blast
qed

lemma includes_trim: "includes_str t s \<Longrightarrow> includes_str t (trim s)"
proof -
  assume "includes_str t s"
  then obtain p q where t: "t = p @ s @ q" by (auto simp: includes_str_iff)
  from trim_decomp obtain a b where "s = a @ trim s @ b" by blast
  with t have "t = (p @ a) @ trim s @ (b @ q)" by (metis append.assoc)
  then show ?thesis unfolding includes_str_iff by blast
qed

lemma scan_keeps: "r \<in> set acc \<Longrightarrow> r \<in> set (scan_sections region q secs acc)"
  by (induction secs arbitrary: acc) (auto simp: Let_def)

lemma scan_finds:
  "n \<in> set secs \<Longrightarrow> includes_str (toLowerCase (textContent n)) q \<Longrightarrow>
     \<exists>r \<in> set (scan_sections region q secs acc). path (element r) = path n"
proof (induction secs arbitrary: acc)
  case Nil
  then show ?case by simp
next
  case (Cons s secs)
  show ?case
  proof (cases "n = s")
    case True
    let ?r = "\<lparr>element = s, heading = findParentHeading region (path s), text' = textContent s,
               id' = (case findParentHeading region (path s) of Some h \<Rightarrow> Some (elem_id h) | None \<Rightarrow> None)\<rparr>"
    show ?thesis
    proof (cases "list_ex (\<lambda>r. path (element r) = path s) acc")
      case seen: True
      then obtain r where r: "r \<in> set acc" "path (element r) = path s"
        by (auto simp: list_ex_iff)
      from scan_keeps [OF r(1)] r(2) True show ?thesis by blast
    next
      case False
      with True Cons.prems(2)
      have "scan_sections region q (s # secs) acc = scan_sections region q secs (acc @ [?r])"
        by (simp add: Let_def)
      moreover have "?r \<in> set (scan_sections region q secs (acc @ [?r]))"
        by (rule scan_keeps) simp
      ultimately show ?thesis using True by (metis result.select_convs(1))
    qed
  next
    case False
    with Cons.prems have "n \<in> set secs" by simp
    from Cons.IH [OF this Cons.prems(2)] show ?thesis by (simp add: Let_def)
  qed
qed

text \<open>
  What is displayed is one record per section: the heading and the paragraph of the test
  document both contain \<^verbatim>\<open>se\<close>, both are in the result array, and the paragraph,
  second under the same heading, is not among the displayed records.
\<close>

lemma same_section_match_not_displayed:
  "map (\<lambda>r. (path (element r), id' r)) (found (performSearch section_page)) =
     [([0], Some ''section1''), ([1], Some ''section1'')]
   \<and> map (\<lambda>r. path (element r)) (displayed (found (performSearch section_page))) = [[0]]"
  by code_simp

text \<open>
  A no-break space is trimmed like a space: the input \<^verbatim>\<open>a\<close>, no-break space is a short
  query although the paragraph holds these two characters.
\<close>

lemma nbsp_query_is_short:
  "trim (toLowerCase (searchInput_value nbsp_page)) = ''a''
   \<and> includes_str (toLowerCase (''a'' @ CHR 0xA0 # ''b'')) (toLowerCase (searchInput_value nbsp_page))
   \<and> performSearch nbsp_page = \<lparr>scanned = [], found = [], innerHTML = Inr []\<rparr>"
  by code_simp

text \<open>
  C6. Every string of length at least 2 that occurs in a node's lower-cased text is claimed
  to be found when it is the query. The input is trimmed before its length is tested:
  the two characters \<^verbatim>\<open>a\<close>, space occur in the paragraph \<^verbatim>\<open>a b\<close>, and the search
  with that input is the no-op of a short query.
\<close>

theorem spaced_query_not_found:
  "spaced_paragraph \<in> set (querySelectorAll (mainContent spaced_page) searchable_tags)
   \<and> toLowerCase (searchInput_value spaced_page) = ''a ''
   \<and> 2 \<le> length ''a ''
   \<and> includes_str (toLowerCase (textContent spaced_paragraph)) ''a ''
   \<and> found (performSearch spaced_page) = []
   \<and> innerHTML (performSearch spaced_page) = Inr []"
  by code_simp

text \<open>
  C6, amended. When the trimmed, lower-cased input has at least 2 characters and the
  lower-cased input occurs in the lower-cased text of a searchable node, the result array
  that \<^verbatim>\<open>performSearch\<close> builds, before deduplication and truncation, holds a record
  for that node.
\<close>

theorem search_finds_substring:
  assumes "n \<in> set (querySelectorAll (mainContent pg) searchable_tags)"
    and "toLowerCase (searchInput_value pg) = s"
    and "includes_str (toLowerCase (textContent n)) s"
    and "2 \<le> length (trim s)"
  shows "\<exists>r \<in> set (found (performSearch pg)). path (element r) = path n"
proof -
  let ?q = "trim (toLowerCase (searchInput_value pg))"
  from assms(2,3) have "includes_str (toLowerCase (textContent n)) ?q"
    by (auto intro: includes_trim)
  from scan_finds [OF assms(1) this, of "mainContent pg" "[]"] assms(2,4)
  show ?thesis by (simp add: performSearch_def Let_def)
qed

theorem search_finds_substring_witness:
  "\<lparr>path = [1], tagName = ''p'', elem_id = [],
     textContent = ''This is some content for testing search functionality.''\<rparr>
     \<in> set (querySelectorAll (mainContent testing_page) searchable_tags)
   \<and> toLowerCase (searchInput_value testing_page) = '' testing ''
   \<and> includes_str (toLowerCase ''This is some content for testing search functionality.'') '' testing ''
   \<and> 2 \<le> length (trim '' testing '')
   \<and> (\<exists>r \<in> set (found (performSearch testing_page)). path (element r) = [1])"
proof -
  let ?n = "\<lparr>path = [1], tagName = ''p'', elem_id = [],
     textContent = ''This is some content for testing search functionality.''\<rparr>"
  have 1: "?n \<in> set (querySelectorAll (mainContent testing_page) searchable_tags)" by code_simp
  have 2: "toLowerCase (searchInput_value testing_page) = '' testing ''" by code_simp
  have 3: "includes_str (toLowerCase (textContent ?n)) '' testing ''" by code_simp
  have 4: "2 \<le> length (trim '' testing '')" by code_simp
  from search_finds_substring [OF 1 2 3 4] have "\<exists>r \<in> set (found (performSearch testing_page)). path (element r) = [1]"
    by simp
  moreover from 3 have "includes_str (toLowerCase ''This is some content for testing search functionality.'') '' testing ''"
    by simp
  ultimately show ?thesis using 1 2 4 by blast
qed

end
